theory Spec2Isabelle
  imports Main "HOL-Library.Word"
begin

unbundle bit_operations_syntax

chapter \<open>Shallow embedding of the cosim\_demo sources\<close>

type_synonym u16 = "16 word"
type_synonym u32 = "32 word"
type_synonym u64 = "64 word"

section \<open>The elastic adder \<open>adder_rv_simple\<close> (rtl/adder\_rv\_simple.sv, W = 32)\<close>

text \<open>
  The four registers of the module. Every instance in the repository uses the default
  width \<open>W = 32\<close>, so the data registers are 32-bit words and \<open>in_a + in_b\<close> wraps.
\<close>

record adder_regs =
  out_buf_valid :: bool
  out_buf_data :: u32
  spill_buf_valid :: bool
  spill_buf_data :: u32

text \<open>The reset branch of the \<open>always_ff\<close> block: all flags and data cleared.\<close>

definition adder_reset :: adder_regs where
  "adder_reset =
     \<lparr>out_buf_valid = False, out_buf_data = 0, spill_buf_valid = False, spill_buf_data = 0\<rparr>"

text \<open>\<open>wire out_buf_ready = !out_buf_valid || out_ready\<close>\<close>

definition out_buf_ready :: "adder_regs \<Rightarrow> bool \<Rightarrow> bool" where
  "out_buf_ready r rdy = (\<not> out_buf_valid r \<or> rdy)"

text \<open>The three continuous assignments driving the output ports.\<close>

definition adder_in_ready :: "adder_regs \<Rightarrow> bool" where
  "adder_in_ready r = (\<not> spill_buf_valid r)"

definition adder_out_valid :: "adder_regs \<Rightarrow> bool" where
  "adder_out_valid r = out_buf_valid r"

definition adder_out_sum :: "adder_regs \<Rightarrow> u32" where
  "adder_out_sum r = out_buf_data r"

text \<open>
  The input ports sampled by one activation of the \<open>always_ff\<close> block, in the order
  \<open>(rst_n, in_valid, in_a, in_b, out_ready)\<close>.
\<close>

type_synonym adder_in = "bool \<times> bool \<times> u32 \<times> u32 \<times> bool"

text \<open>
  One activation of \<open>always_ff @(posedge clk or negedge rst_n)\<close>. All assignments are
  non-blocking: every condition and right-hand side reads the registers \<open>r\<close> as they were
  before the edge, and the assignments of the second \<open>if\<close> are applied after those of
  the first.
\<close>

fun adder_posedge :: "adder_regs \<Rightarrow> adder_in \<Rightarrow> adder_regs" where
  "adder_posedge r (rstn, vld, a, b, rdy) =
     (if \<not> rstn then adder_reset
      else
        let r1 = (if out_buf_ready r rdy then
                    (if spill_buf_valid r then
                       r\<lparr>out_buf_data := spill_buf_data r, out_buf_valid := True,
                         spill_buf_valid := False\<rparr>
                     else if vld then r\<lparr>out_buf_data := a + b, out_buf_valid := True\<rparr>
                     else if rdy then r\<lparr>out_buf_valid := False\<rparr>
                     else r)
                  else r)
        in if vld \<and> \<not> out_buf_ready r rdy \<and> \<not> spill_buf_valid r
           then r1\<lparr>spill_buf_data := a + b, spill_buf_valid := True\<rparr>
           else r1)"

text \<open>The registers after a sequence of clock edges, starting from the reset state.\<close>

definition adder_run :: "adder_in list \<Rightarrow> adder_regs" where
  "adder_run xs = foldl adder_posedge adder_reset xs"

text \<open>Number of occupied slots (output slot plus spill slot).\<close>

definition adder_occ :: "adder_regs \<Rightarrow> int" where
  "adder_occ r = of_bool (out_buf_valid r) + of_bool (spill_buf_valid r)"

text \<open>
  The same run with a bookkeeping counter beside the registers: the number of items
  accepted (\<open>in_valid && in_ready\<close> at an edge) minus the number completed
  (\<open>out_valid && out_ready\<close> at an edge) since the last reset. The counter is an integer,
  so a completion without a matching acceptance would show as a negative value.
\<close>

fun adder_tracked :: "adder_regs \<times> int \<Rightarrow> adder_in \<Rightarrow> adder_regs \<times> int" where
  "adder_tracked (r, n) (rstn, vld, a, b, rdy) =
     (adder_posedge r (rstn, vld, a, b, rdy),
      if \<not> rstn then 0
      else n + of_bool (vld \<and> adder_in_ready r) - of_bool (adder_out_valid r \<and> rdy))"

definition adder_inflight :: "adder_in list \<Rightarrow> int" where
  "adder_inflight xs = snd (foldl adder_tracked (adder_reset, 0) xs)"

section \<open>The squaring DUT (naive/rtl/dut.v, DATAW = 16)\<close>

text \<open>The two output registers; \<open>out_data\<close> is \<open>2 * DATAW = 32\<close> bits wide and signed.\<close>

record dut =
  out_valid :: bool
  out_data :: u32

text \<open>\<open>assign in_ready = rst_n\<close>\<close>

definition dut_in_ready :: "bool \<Rightarrow> bool" where
  "dut_in_ready rstn = rstn"

text \<open>
  \<open>in_data * in_data\<close> with signed 16-bit operands in a signed 32-bit assignment context:
  both operands are sign-extended to 32 bits and multiplied there.
\<close>

definition dut_square :: "u16 \<Rightarrow> u32" where
  "dut_square d = scast d * scast d"

text \<open>
  One activation of the \<open>always\<close> block, ports in the order
  \<open>(rst_n, in_valid, in_data, out_ready)\<close>. The input branch is tested first; the
  retirement branch is its \<open>else if\<close>.
\<close>

fun dut_posedge :: "dut \<Rightarrow> bool \<times> bool \<times> u16 \<times> bool \<Rightarrow> dut" where
  "dut_posedge r (rstn, vld, d, rdy) =
     (if \<not> rstn then \<lparr>out_valid = False, out_data = 0\<rparr>
      else if vld \<and> dut_in_ready rstn then r\<lparr>out_data := dut_square d, out_valid := True\<rparr>
      else if out_valid r \<and> rdy then r\<lparr>out_valid := False\<rparr>
      else r)"

text \<open>
  What a consumer sees at an edge: a result is transferred exactly when \<open>out_valid\<close> and
  \<open>out_ready\<close> are both high before the edge (the monitor of \<open>tb_top\<close>).
\<close>

definition dut_transfer :: "dut \<Rightarrow> bool \<Rightarrow> u32 option" where
  "dut_transfer r rdy = (if out_valid r \<and> rdy then Some (out_data r) else None)"

text \<open>A run of the DUT with the monitor: the final registers and the transferred results.\<close>

fun dut_run :: "dut \<Rightarrow> (bool \<times> bool \<times> u16 \<times> bool) list \<Rightarrow> dut \<times> u32 list" where
  "dut_run r [] = (r, [])"
| "dut_run r ((rstn, vld, d, rdy) # xs) =
     (let (r', ys) = dut_run (dut_posedge r (rstn, vld, d, rdy)) xs
      in (r', (case dut_transfer r rdy of None \<Rightarrow> ys | Some y \<Rightarrow> y # ys)))"

section \<open>The file-based C testbench of the squaring DUT (sw/main.c with sw/utils.h)\<close>

text \<open>
  How a run of a testbench process ends: \<open>main\<close> returns a status, or the process is
  aborted (a failed \<open>assert\<close>, an exception that leaves \<open>main\<close>).
\<close>

datatype outcome = Exit int | Aborted

text \<open>\<open>const size_t N = 1024\<close>\<close>

definition N_samples :: nat where
  "N_samples = 1024"

text \<open>
  The stimulus and golden vectors: \<open>in[i] = (int)(i - 512)\<close> computed in \<open>size_t\<close> and
  converted to a 32-bit \<open>int\<close>, \<open>gld[i] = in[i] * in[i]\<close>.
\<close>

definition c_in :: "nat \<Rightarrow> u32" where
  "c_in i = ucast (word_of_nat i - 512 :: u64)"

definition c_gld :: "nat \<Rightarrow> u32" where
  "c_gld i = c_in i * c_in i"

text \<open>
  \<open>write_inputs\<close>: \<open>-1\<close> when \<open>n\<close> is 0 or the file cannot be opened, else \<open>0\<close>. The
  pointers passed by \<open>main\<close> are never null; whether \<open>fopen\<close> succeeds is the
  environment's answer \<open>can_open\<close>.
\<close>

definition write_inputs :: "bool \<Rightarrow> nat \<Rightarrow> int" where
  "write_inputs can_open n = (if n = 0 then - 1 else if \<not> can_open then - 1 else 0)"

text \<open>
  The loop of \<open>read_outputs\<close>: one \<open>fscanf("%d")\<close> per remaining element. The file is
  modelled by the sequence of integers that successive conversions yield; when it is
  exhausted the conversion fails and the function returns \<open>-2\<close>. Nothing is read after
  the \<open>n\<close>-th element.
\<close>

fun read_loop :: "u32 list \<Rightarrow> nat \<Rightarrow> u32 list \<Rightarrow> int \<times> u32 list" where
  "read_loop toks 0 vec = (0, vec)"
| "read_loop [] (Suc k) vec = (- 2, vec)"
| "read_loop (t # toks) (Suc k) vec = read_loop toks k (vec @ [t])"

text \<open>\<open>read_outputs\<close>; the file is \<open>None\<close> when it cannot be opened.\<close>

definition read_outputs :: "u32 list option \<Rightarrow> nat \<Rightarrow> int \<times> u32 list" where
  "read_outputs file n =
     (if n = 0 then (- 1, [])
      else case file of None \<Rightarrow> (- 1, []) | Some toks \<Rightarrow> read_loop toks n [])"

text \<open>\<open>launch_sim\<close>: \<open>rc\<close> is what \<open>system(VSIM_CMD)\<close> returned.\<close>

definition launch_sim :: "int \<Rightarrow> int" where
  "launch_sim rc = (if rc \<noteq> 0 then 3 else 0)"

text \<open>
  The comparison loop shared by both file-based hosts:
  \<open>for (i = 0; i < n; ++i) if (mismatch at i) { if (mism < 10) print line i; ++mism; }\<close>.
  The state is the counter \<open>mism\<close> and the list of indices for which a line was printed.
\<close>

function mismatch_loop ::
  "(nat \<Rightarrow> bool) \<Rightarrow> nat \<Rightarrow> nat \<Rightarrow> nat \<times> nat list \<Rightarrow> nat \<times> nat list" where
  "mismatch_loop differs i n (mism, printed) =
     (if i < n then
        mismatch_loop differs (i + 1) n
          (if differs i then (mism + 1, if mism < 10 then printed @ [i] else printed)
           else (mism, printed))
      else (mism, printed))"
  by pat_completeness auto
termination
  by (relation "measure (\<lambda>(differs, i, n, s). n - i)") auto

declare mismatch_loop.simps [simp del]

definition c_tb_compare :: "u32 list \<Rightarrow> nat \<times> nat list" where
  "c_tb_compare out = mismatch_loop (\<lambda>i. out ! i \<noteq> c_gld i) 0 N_samples (0, [])"

text \<open>
  \<open>main\<close> of sw/main.c, built with assertions enabled as the repository's Makefile does.
  The environment supplies: whether the three \<open>malloc\<close>s succeeded, whether the input
  file can be written, the return value of \<open>system\<close>, and the output file found after the
  simulator has run.
\<close>

definition c_tb_main :: "bool \<Rightarrow> bool \<Rightarrow> int \<Rightarrow> u32 list option \<Rightarrow> outcome" where
  "c_tb_main alloc_ok can_write sim_rc out_file =
     (if \<not> alloc_ok then Exit 1
      else if write_inputs can_write N_samples \<noteq> 0 then Exit 2
      else if launch_sim sim_rc \<noteq> 0 then Aborted
      else case read_outputs out_file N_samples of (rc, out) \<Rightarrow>
        if rc \<noteq> 0 then Exit 4
        else Exit (if fst (c_tb_compare out) = 0 then 0 else 5))"

section \<open>The file-based C++ host of the adder (adder/sw/cosim\_tb.cpp)\<close>

text \<open>The default values of the macros \<open>COSIM_N\<close> and \<open>COSIM_SEED\<close>.\<close>

definition COSIM_N :: nat where
  "COSIM_N = 1024"

definition COSIM_SEED :: u32 where
  "COSIM_SEED = 1"

text \<open>
  The wait status returned by \<open>std::system\<close>, as the macros of \<open>sys/wait.h\<close> classify it,
  and \<open>run_cmd\<close>. A failure to change the working directory throws; the exception is
  not caught by \<open>main\<close>, which is the result \<open>None\<close>.
\<close>

datatype wstatus = Cwd_error | System_failed | Exited nat | Signaled nat | Other_status int

fun run_cmd :: "wstatus \<Rightarrow> int option" where
  "run_cmd Cwd_error = None"
| "run_cmd System_failed = Some (- 1)"
| "run_cmd (Exited c) = Some (int c)"
| "run_cmd (Signaled sig) = Some (128 + int sig)"
| "run_cmd (Other_status st) = Some st"

text \<open>The generator \<open>lcg\<close>: \<open>s = s * 1664525u + 1013904223u\<close> on \<open>uint32_t\<close>.\<close>

definition lcg :: "u32 \<Rightarrow> u32" where
  "lcg s = s * 1664525 + 1013904223"

text \<open>The stimulus loop: \<open>n\<close> pairs, two draws per pair, the state threaded through.\<close>

fun gen_stimulus :: "nat \<Rightarrow> u32 \<Rightarrow> (u32 \<times> u32) list" where
  "gen_stimulus 0 s = []"
| "gen_stimulus (Suc k) s = (let a = lcg s; b = lcg a in (a, b) # gen_stimulus k b)"

text \<open>
  The golden value of the comparison loop:
  \<open>(uint32_t)((uint64_t)in[i].first + (uint64_t)in[i].second)\<close>.
\<close>

definition exp_sum :: "u32 \<times> u32 \<Rightarrow> u32" where
  "exp_sum p = ucast ((ucast (fst p) :: u64) + (ucast (snd p) :: u64))"

text \<open>
  \<open>read_outputs_txt\<close>: every whitespace-separated token is parsed as hexadecimal; a
  token that does not parse is skipped. The conversion of one token by the stream
  library is the parameter \<open>parse\<close>.
\<close>

definition read_outputs_txt ::
  "(string \<Rightarrow> u32 option) \<Rightarrow> string list option \<Rightarrow> u32 list option" where
  "read_outputs_txt parse file = map_option (List.map_filter parse) file"

definition cosim_compare :: "(u32 \<times> u32) list \<Rightarrow> u32 list \<Rightarrow> nat \<Rightarrow> nat \<times> nat list" where
  "cosim_compare inp got n = mismatch_loop (\<lambda>i. got ! i \<noteq> exp_sum (inp ! i)) 0 n (0, [])"

text \<open>
  \<open>main\<close> of cosim\_tb.cpp for \<open>COSIM_N = n\<close> and \<open>COSIM_SEED = seed\<close>. The environment
  supplies: whether the input file can be written, the wait status of each of the three
  tool invocations, and the token sequence of the output file after the simulation.
\<close>

definition cosim_main ::
  "(string \<Rightarrow> u32 option) \<Rightarrow> nat \<Rightarrow> u32 \<Rightarrow> bool \<Rightarrow> wstatus \<Rightarrow> wstatus \<Rightarrow> wstatus
     \<Rightarrow> string list option \<Rightarrow> outcome" where
  "cosim_main parse n seed can_write vlib vlog vsim out_file =
     (let inp = gen_stimulus n seed in
      if \<not> can_write then Exit 2
      else case run_cmd vlib of None \<Rightarrow> Aborted | Some r1 \<Rightarrow>
        if r1 \<noteq> 0 then Exit 3
        else case run_cmd vlog of None \<Rightarrow> Aborted | Some r2 \<Rightarrow>
          if r2 \<noteq> 0 then Exit 3
          else case run_cmd vsim of None \<Rightarrow> Aborted | Some r3 \<Rightarrow>
            if r3 \<noteq> 0 then Exit 3
            else case read_outputs_txt parse out_file of None \<Rightarrow> Exit 4 | Some got \<Rightarrow>
              if length got \<noteq> n then Exit 4
              else Exit (if fst (cosim_compare inp got n) = 0 then 0 else 5))"

section \<open>The Verilator testbench (verilator-based/rv\_adder\_example/sim/tb\_main.cpp)\<close>

text \<open>
  The object \<open>top\<close>: the ports of the Verilated module (32-bit data ports, since
  \<open>W = 32\<close>) and the internal state \<open>model\<close> of the generated class. The class
  \<open>Vadder_rv_simple\<close> is generated by Verilator and is not among the sources, so its
  method \<open>eval\<close>, the flag \<open>Verilated::gotFinish()\<close> and the library generator
  \<open>std::mt19937_64\<close> are parameters of the testbench below:
  \<open>ev :: 's vtop \<Rightarrow> 's vtop\<close>, \<open>fin :: 's vtop \<Rightarrow> bool\<close> and
  \<open>gen :: 'g \<Rightarrow> u64 \<times> 'g\<close> (one call of \<open>rng()\<close>).
\<close>

record 's vtop =
  clk :: bool
  rst_n :: bool
  in_valid :: bool
  in_ready :: bool
  in_a :: u32
  in_b :: u32
  out_valid :: bool
  out_ready :: bool
  out_sum :: u32
  model :: 's

text \<open>
  The variables of \<open>main\<close> that live across the loops: the DUT \<open>top\<close> (field
  \<open>top_dut\<close>), the scoreboard queue \<open>expq\<close>, the counter \<open>errors\<close> and the generator
  \<open>rng\<close>. The counter is a C \<open>int\<close>
  that is only incremented, at most once per cycle of at most 2134 cycles.
\<close>

record ('s, 'g) tb =
  top_dut :: "'s vtop"
  expq :: "u64 list"
  errors :: int
  rng :: 'g

text \<open>\<open>mask = (1ull << W) - 1\<close> for \<open>W = 32\<close>\<close>

definition tb_mask :: u64 where
  "tb_mask = push_bit 32 1 - 1"

text \<open>The value pushed on an acceptance: \<open>(a + b) & mask\<close> in 64-bit arithmetic.\<close>

definition tb_expected :: "u64 \<Rightarrow> u64 \<Rightarrow> u64" where
  "tb_expected a b = (a + b) AND tb_mask"

text \<open>\<open>rand_bit\<close>: \<open>(int)(rng() % 100) < prob_percent\<close>\<close>

definition rand_bit :: "('g \<Rightarrow> u64 \<times> 'g) \<Rightarrow> int \<Rightarrow> 'g \<Rightarrow> bool \<times> 'g" where
  "rand_bit gen prob_percent g = (case gen g of (x, g') \<Rightarrow> (uint (x mod 100) < prob_percent, g'))"

text \<open>
  The block that follows every \<open>if (valid && ready)\<close> of the pop side, the same in all four
  loops: an empty queue is counted as an error, otherwise the front is popped and
  compared with the observed value.
\<close>

fun pop_compare :: "u64 \<Rightarrow> u64 list \<times> int \<Rightarrow> u64 list \<times> int" where
  "pop_compare got ([], e) = ([], e + 1)"
| "pop_compare got (ex # rest, e) = (rest, if got \<noteq> ex then e + 1 else e)"

text \<open>Initialisation of the ports, and the reset loop followed by \<open>rst_n = 1\<close>.\<close>

definition tb_init :: "'s vtop \<Rightarrow> 's vtop" where
  "tb_init t = t\<lparr>clk := False, rst_n := False, in_valid := False, in_a := 0, in_b := 0,
                 out_ready := False\<rparr>"

definition reset_cycle :: "('s vtop \<Rightarrow> 's vtop) \<Rightarrow> 's vtop \<Rightarrow> 's vtop" where
  "reset_cycle ev t = ev ((ev (t\<lparr>clk := False\<rparr>))\<lparr>clk := True\<rparr>)"

definition tb_reset :: "('s vtop \<Rightarrow> 's vtop) \<Rightarrow> 's vtop \<Rightarrow> 's vtop" where
  "tb_reset ev t = ((reset_cycle ev ^^ 4) t)\<lparr>rst_n := True\<rparr>"

text \<open>The directed vectors \<open>dirv\<close> and one iteration of the directed loop.\<close>

definition dirv :: "(u64 \<times> u64) list" where
  "dirv = [(0, 0), (1, 0), (0, 1), (1, 1), (tb_mask, 1), (tb_mask, tb_mask)]"

definition dir_cycle ::
  "('s vtop \<Rightarrow> 's vtop) \<Rightarrow> ('s, 'g) tb \<Rightarrow> u64 \<times> u64 \<Rightarrow> ('s, 'g) tb" where
  "dir_cycle ev st v =
     (let t1 = ev ((top_dut st)\<lparr>clk := False, in_valid := True, in_a := ucast (fst v AND tb_mask),
                              in_b := ucast (snd v AND tb_mask), out_ready := True\<rparr>);
          q1 = (if in_valid t1 \<and> in_ready t1 then expq st @ [tb_expected (fst v) (snd v)]
                else expq st);
          t2 = ev (t1\<lparr>clk := True\<rparr>);
          qe = (if out_valid t2 \<and> out_ready t2 then pop_compare (ucast (out_sum t2)) (q1, errors st)
                else (q1, errors st))
      in st\<lparr>top_dut := t2, expq := fst qe, errors := snd qe\<rparr>)"

text \<open>
  One iteration of a drain loop (the directed drain and the final drain have the same
  body), and the loop with its bound of 64 iterations. The loop returns the value of its
  counter \<open>i\<close> at exit beside the state.
\<close>

definition drain_cycle :: "('s vtop \<Rightarrow> 's vtop) \<Rightarrow> ('s, 'g) tb \<Rightarrow> ('s, 'g) tb" where
  "drain_cycle ev st =
     (let t1 = ev ((top_dut st)\<lparr>clk := False, in_valid := False, out_ready := True\<rparr>);
          t2 = ev (t1\<lparr>clk := True\<rparr>);
          qe = (if out_valid t2 \<and> out_ready t2
                then pop_compare (ucast (out_sum t2)) (expq st, errors st)
                else (expq st, errors st))
      in st\<lparr>top_dut := t2, expq := fst qe, errors := snd qe\<rparr>)"

function drain_loop ::
  "('s vtop \<Rightarrow> 's vtop) \<Rightarrow> nat \<Rightarrow> ('s, 'g) tb \<Rightarrow> nat \<times> ('s, 'g) tb" where
  "drain_loop ev i st =
     (if i < 64 \<and> (expq st \<noteq> [] \<or> out_valid (top_dut st))
      then drain_loop ev (i + 1) (drain_cycle ev st)
      else (i, st))"
  by pat_completeness auto
termination
  by (relation "measure (\<lambda>(ev, i, st). 64 - i)") auto

declare drain_loop.simps [simp del]

text \<open>
  The randomized loop. \<open>rnd_drive\<close> is the stimulus decision at the top of the body: four
  calls of the generator, in this order. \<open>rnd_low\<close> is the low phase: the ports are driven
  and the model evaluated.
\<close>

definition rnd_drive :: "('g \<Rightarrow> u64 \<times> 'g) \<Rightarrow> 'g \<Rightarrow> (bool \<times> bool \<times> u64 \<times> u64) \<times> 'g" where
  "rnd_drive gen g0 =
     (case rand_bit gen 70 g0 of (present, g1) \<Rightarrow>
      case rand_bit gen 60 g1 of (ready, g2) \<Rightarrow>
      case gen g2 of (x, g3) \<Rightarrow>
      case gen g3 of (y, g4) \<Rightarrow> ((present, ready, x AND tb_mask, y AND tb_mask), g4))"

definition rnd_low ::
  "('s vtop \<Rightarrow> 's vtop) \<Rightarrow> bool \<times> bool \<times> u64 \<times> u64 \<Rightarrow> 's vtop \<Rightarrow> 's vtop" where
  "rnd_low ev d t =
     (case d of (present, ready, a, b) \<Rightarrow>
        ev (t\<lparr>clk := False, in_valid := present, in_a := ucast a, in_b := ucast b,
              out_ready := ready\<rparr>))"

text \<open>
  The rest of the body for the drive \<open>d\<close>: the pre-edge snapshot, the push when the input
  handshake holds (\<open>rnd_push\<close> is the queue after that \<open>if\<close>), the rising edge, and then
  the pop decided by the snapshot.
\<close>

definition rnd_push ::
  "('s vtop \<Rightarrow> 's vtop) \<Rightarrow> bool \<times> bool \<times> u64 \<times> u64 \<Rightarrow> ('s, 'g) tb \<Rightarrow> u64 list" where
  "rnd_push ev d st =
     (case d of (present, ready, a, b) \<Rightarrow>
        if in_valid (rnd_low ev d (top_dut st)) \<and> in_ready (rnd_low ev d (top_dut st))
        then expq st @ [tb_expected a b]
        else expq st)"

definition rnd_edge ::
  "('s vtop \<Rightarrow> 's vtop) \<Rightarrow> bool \<times> bool \<times> u64 \<times> u64 \<Rightarrow> ('s, 'g) tb \<Rightarrow> ('s, 'g) tb" where
  "rnd_edge ev d st =
     (let t1 = rnd_low ev d (top_dut st);
          pre_valid = out_valid t1;
          pre_ready = out_ready t1;
          pre_sum = (ucast (out_sum t1) :: u64);
          q1 = rnd_push ev d st;
          t2 = ev (t1\<lparr>clk := True\<rparr>);
          qe = (if pre_valid \<and> pre_ready then pop_compare pre_sum (q1, errors st)
                else (q1, errors st))
      in st\<lparr>top_dut := t2, expq := fst qe, errors := snd qe\<rparr>)"

definition rnd_cycle ::
  "('s vtop \<Rightarrow> 's vtop) \<Rightarrow> ('g \<Rightarrow> u64 \<times> 'g) \<Rightarrow> ('s, 'g) tb \<Rightarrow> ('s, 'g) tb" where
  "rnd_cycle ev gen st =
     (case rnd_drive gen (rng st) of (d, g') \<Rightarrow> rnd_edge ev d (st\<lparr>rng := g'\<rparr>))"

text \<open>\<open>const int cycles = 2000\<close>, and the loop with its \<open>break\<close> on \<open>gotFinish()\<close>.\<close>

definition cycles :: nat where
  "cycles = 2000"

function rnd_loop ::
  "('s vtop \<Rightarrow> 's vtop) \<Rightarrow> ('s vtop \<Rightarrow> bool) \<Rightarrow> ('g \<Rightarrow> u64 \<times> 'g) \<Rightarrow> nat \<Rightarrow> ('s, 'g) tb
     \<Rightarrow> ('s, 'g) tb" where
  "rnd_loop ev fin gen t st =
     (if t < cycles then
        (if fin (top_dut (rnd_cycle ev gen st)) then rnd_cycle ev gen st
         else rnd_loop ev fin gen (t + 1) (rnd_cycle ev gen st))
      else st)"
  by pat_completeness auto
termination
  by (relation "measure (\<lambda>(ev, fin, gen, t, st). cycles - t)") auto

declare rnd_loop.simps [simp del]

text \<open>
  \<open>main\<close> for the freshly constructed model \<open>top0\<close> and the generator state \<open>g0\<close> that
  \<open>std::mt19937_64 rng(1)\<close> constructs: \<open>tb_directed\<close> is the part up to the end of the
  directed drain, \<open>tb_run\<close> continues to the end of the final drain, and \<open>tb_status\<close> is the
  status returned after it.
\<close>

definition tb_directed :: "('s vtop \<Rightarrow> 's vtop) \<Rightarrow> 'g \<Rightarrow> 's vtop \<Rightarrow> ('s, 'g) tb" where
  "tb_directed ev g0 top0 =
     (let st0 = \<lparr>top_dut = tb_reset ev (tb_init top0), expq = [], errors = 0, rng = g0\<rparr>;
          st1 = foldl (dir_cycle ev) st0 dirv
      in snd (drain_loop ev 0 st1))"

definition tb_run ::
  "('s vtop \<Rightarrow> 's vtop) \<Rightarrow> ('s vtop \<Rightarrow> bool) \<Rightarrow> ('g \<Rightarrow> u64 \<times> 'g) \<Rightarrow> 'g \<Rightarrow> 's vtop
     \<Rightarrow> ('s, 'g) tb" where
  "tb_run ev fin gen g0 top0 =
     snd (drain_loop ev 0 (rnd_loop ev fin gen 0 (tb_directed ev g0 top0)))"

definition tb_status :: "('s, 'g) tb \<Rightarrow> int" where
  "tb_status st = (if errors st \<noteq> 0 then 1 else 0)"

definition tb_main ::
  "('s vtop \<Rightarrow> 's vtop) \<Rightarrow> ('s vtop \<Rightarrow> bool) \<Rightarrow> ('g \<Rightarrow> u64 \<times> 'g) \<Rightarrow> 'g \<Rightarrow> 's vtop \<Rightarrow> int" where
  "tb_main ev fin gen g0 top0 = tb_status (tb_run ev fin gen g0 top0)"

section \<open>The producer task of the file-based harness (adder\_cosim\_tb.sv, rv\_cosim\_tb.sv)\<close>


section \<open>Reference definitions and concrete environments\<close>

text \<open>
  The scoreboard step as the specification words it, for comparison with \<open>rnd_edge\<close>: the
  completion is processed first (pop and compare), the acceptance second (push).
\<close>

definition spec_on_edge ::
  "bool \<Rightarrow> u64 \<Rightarrow> bool \<Rightarrow> u64 \<Rightarrow> u64 list \<times> int \<Rightarrow> u64 list \<times> int" where
  "spec_on_edge did_accept expected did_complete observed qe =
     (let qe1 = (if did_complete then pop_compare observed qe else qe)
      in (if did_accept then fst qe1 @ [expected] else fst qe1, snd qe1))"

text \<open>
  The stimulus of the first \<open>k\<close> randomized cycles as a function of the generator alone:
  \<open>rnd_drive\<close> iterated on the generator state.
\<close>

fun rnd_stimulus ::
  "('g \<Rightarrow> u64 \<times> 'g) \<Rightarrow> nat \<Rightarrow> 'g \<Rightarrow> (bool \<times> bool \<times> u64 \<times> u64) list" where
  "rnd_stimulus gen 0 g = []"
| "rnd_stimulus gen (Suc k) g = fst (rnd_drive gen g) # rnd_stimulus gen k (snd (rnd_drive gen g))"

text \<open>
  The Verilated model of \<open>adder_rv_simple\<close>, following the RTL above: \<open>eval\<close> activates the
  \<open>always_ff\<close> block when it sees a rising \<open>clk\<close> or a falling \<open>rst_n\<close> since the previous
  call, then recomputes the continuous assignments. A new model has all state zero.
\<close>

record adder_model =
  regs :: adder_regs
  clk_seen :: bool
  rst_n_seen :: bool

definition adder_eval :: "adder_model vtop \<Rightarrow> adder_model vtop" where
  "adder_eval t =
     (let m = model t;
          r = (if (clk t \<and> \<not> clk_seen m) \<or> (\<not> rst_n t \<and> rst_n_seen m)
               then adder_posedge (regs m) (rst_n t, in_valid t, in_a t, in_b t, out_ready t)
               else regs m)
      in t\<lparr>in_ready := adder_in_ready r, out_valid := adder_out_valid r,
            out_sum := adder_out_sum r,
            model := \<lparr>regs = r, clk_seen = clk t, rst_n_seen = rst_n t\<rparr>\<rparr>)"

definition adder_top0 :: "adder_model vtop" where
  "adder_top0 =
     \<lparr>clk = False, rst_n = False, in_valid = False, in_ready = False, in_a = 0, in_b = 0,
      out_valid = False, out_ready = False, out_sum = 0,
      model = \<lparr>regs = adder_reset, clk_seen = False, rst_n_seen = False\<rparr>\<rparr>"

text \<open>
  A combinational adder with no storage: the result is presented in the cycle of the
  offer and the input is accepted exactly when the consumer takes it.
\<close>

definition comb_eval :: "unit vtop \<Rightarrow> unit vtop" where
  "comb_eval t = t\<lparr>in_ready := out_ready t, out_valid := in_valid t, out_sum := in_a t + in_b t\<rparr>"

text \<open>A stuck design: it accepts every offer and never presents a result.\<close>

definition stuck_eval :: "unit vtop \<Rightarrow> unit vtop" where
  "stuck_eval t = t\<lparr>in_ready := True, out_valid := False, out_sum := 0\<rparr>"

definition unit_top0 :: "unit vtop" where
  "unit_top0 =
     \<lparr>clk = False, rst_n = False, in_valid = False, in_ready = False, in_a = 0, in_b = 0,
      out_valid = False, out_ready = False, out_sum = 0, model = ()\<rparr>"

text \<open>A faulty design: it presents the result \<open>7\<close> in every cycle and accepts nothing.\<close>

definition babble_eval :: "unit vtop \<Rightarrow> unit vtop" where
  "babble_eval t = t\<lparr>in_ready := False, out_valid := True, out_sum := 7\<rparr>"

text \<open>
  A generator that replays a script: each call returns the next value of the list, and
  \<open>0\<close> once the list is exhausted.
\<close>

fun scripted_rng :: "u64 list \<Rightarrow> u64 \<times> u64 list" where
  "scripted_rng [] = (0, [])"
| "scripted_rng (x # xs) = (x, xs)"

text \<open>The first 36 outputs of \<open>std::mt19937_64\<close> seeded with 1, enough for nine cycles.\<close>

definition mt19937_64_seed1 :: "u64 list" where
  "mt19937_64_seed1 =
     [0x2245bd5fbb686f68, 0x22eb92502318fa4e, 0x7382d1e77ae6459a, 0x0561d8057935c08e,
      0x59d47572ecfc6738, 0xe94ec2d2b9936849, 0x78833635915bd1b4, 0x130d84f91bf14b09,
      0x91e180b364f46100, 0xa29e835c0e448010, 0x16e6678d39feef00, 0x8e61bd8674b6331b,
      0xca26a1a840991e65, 0x38bcfc057e745a63, 0x6b2ddc59760d03dc, 0x3ff1722c566a5199,
      0x4ab7a473d29376c1, 0xcda0e546aaf708ba, 0x797efaca4dbd97e3, 0x451ac15e436fcbe8,
      0x493a09523afa6fcf, 0xbfbddc1f91c5bf67, 0x7547a68cfdd04144, 0x4e6240030eecc15b,
      0x525ecdf403233263, 0x1cf8fa026c9f0d1a, 0x1e8dee4c09d96c4b, 0x11b1c7962db13031,
      0xb1dbd9f06d472b18, 0xa5d601951a58a5ca, 0xca4ae8e06a9888a7, 0x647c72c63386bcb5,
      0x87a9f8b641c7eb81, 0x65fb9c2170daa714, 0x30bb3e55b6d6c3ee, 0x98d462c4ea0c48bc]"

chapter \<open>Properties\<close>

section \<open>The elastic adder\<close>

lemma adder_posedge_keeps_order:
  assumes "spill_buf_valid r \<longrightarrow> out_buf_valid r"
  shows "spill_buf_valid (adder_posedge r x) \<longrightarrow> out_buf_valid (adder_posedge r x)"
  using assms by (cases x) (auto simp: adder_reset_def out_buf_ready_def Let_def)

lemma adder_tracked_fst: "fst (adder_tracked (r, n) x) = adder_posedge r x"
  by (cases x) simp

lemma adder_tracked_occ:
  assumes "spill_buf_valid r \<longrightarrow> out_buf_valid r" and "n = adder_occ r"
  shows "snd (adder_tracked (r, n) x) = adder_occ (adder_posedge r x)"
  using assms
  by (cases x)
     (auto simp: adder_reset_def out_buf_ready_def Let_def adder_occ_def adder_in_ready_def
                 adder_out_valid_def)

lemma adder_tracked_run:
  assumes "spill_buf_valid r \<longrightarrow> out_buf_valid r" and "n = adder_occ r"
  shows "foldl adder_tracked (r, n) xs =
           (foldl adder_posedge r xs, adder_occ (foldl adder_posedge r xs))
         \<and> (spill_buf_valid (foldl adder_posedge r xs) \<longrightarrow>
              out_buf_valid (foldl adder_posedge r xs))"
  using assms
proof (induction xs arbitrary: r n)
  case Nil
  then show ?case by simp
next
  case (Cons x xs)
  have step: "adder_tracked (r, n) x = (adder_posedge r x, adder_occ (adder_posedge r x))"
    using adder_tracked_fst [of r n x] adder_tracked_occ [OF Cons.prems, of x]
    by (metis prod.collapse)
  have inv: "spill_buf_valid (adder_posedge r x) \<longrightarrow> out_buf_valid (adder_posedge r x)"
    by (rule adder_posedge_keeps_order [OF Cons.prems(1)])
  show ?case
    using Cons.IH [OF inv refl] step by simp
qed

lemma adder_occ_range: "0 \<le> adder_occ r \<and> adder_occ r \<le> 2"
  by (simp add: adder_occ_def)

text \<open>
  Claim C9. In every state of \<open>adder_rv_simple\<close> reached from reset by any sequence of
  clock edges (with any inputs, further resets included), a valid spill slot implies a
  valid output slot; \<open>in_ready\<close> is low exactly when the spill slot is valid; and the number
  of accepted but not yet completed items equals the number of occupied slots, which is
  at most 2.
\<close>

theorem adder_rv_simple_order_and_capacity:
  "(spill_buf_valid (adder_run xs) \<longrightarrow> out_buf_valid (adder_run xs))
   \<and> (\<not> adder_in_ready (adder_run xs) \<longleftrightarrow> spill_buf_valid (adder_run xs))
   \<and> adder_inflight xs = adder_occ (adder_run xs)
   \<and> 0 \<le> adder_inflight xs \<and> adder_inflight xs \<le> 2"
proof -
  have start: "spill_buf_valid adder_reset \<longrightarrow> out_buf_valid adder_reset"
    by (simp add: adder_reset_def)
  have zero: "(0::int) = adder_occ adder_reset"
    by (simp add: adder_occ_def adder_reset_def)
  note run = adder_tracked_run [OF start zero, of xs]
  have infl: "adder_inflight xs = adder_occ (adder_run xs)"
    using run by (simp add: adder_inflight_def adder_run_def)
  show ?thesis
    using run infl adder_occ_range [of "adder_run xs"]
    by (simp add: adder_run_def adder_in_ready_def)
qed

text \<open>
  Two offers against a consumer that is not ready fill both slots: the spill slot is
  valid, and the theorem gives the valid output slot.
\<close>

theorem adder_rv_simple_order_and_capacity_witness:
  "spill_buf_valid (adder_run [(True, True, 1, 2, False), (True, True, 3, 4, False)])
   \<and> out_buf_valid (adder_run [(True, True, 1, 2, False), (True, True, 3, 4, False)])
   \<and> adder_inflight [(True, True, 1, 2, False), (True, True, 3, 4, False)] = 2"
proof -
  have spill: "spill_buf_valid (adder_run [(True, True, 1, 2, False), (True, True, 3, 4, False)])"
    by (simp add: adder_run_def adder_reset_def out_buf_ready_def)
  have infl: "adder_inflight [(True, True, 1, 2, False), (True, True, 3, 4, False)] = 2"
    by (simp add: adder_inflight_def adder_reset_def out_buf_ready_def adder_in_ready_def
                  adder_out_valid_def)
  show ?thesis
    using spill infl
      adder_rv_simple_order_and_capacity [of "[(True, True, 1, 2, False), (True, True, 3, 4, False)]"]
    by simp
qed

section \<open>The squaring DUT\<close>

lemma dut_square_sint: "sint (dut_square d) = sint d * sint d"
proof -
  have lo: "- (2 ^ 15) \<le> sint d" and hi: "sint d < 2 ^ 15"
    using sint_ge [of d] sint_lt [of d] by simp_all
  have ext: "sint (scast d :: u32) = sint d"
    by (simp add: sint_up_scast is_up)
  have ab: "\<bar>sint d\<bar> \<le> 2 ^ 15"
    using lo hi by linarith
  have "\<bar>sint d\<bar> * \<bar>sint d\<bar> \<le> 2 ^ 15 * 2 ^ 15"
    by (rule mult_mono [OF ab ab]) simp_all
  then have up: "sint d * sint d < 2 ^ 31"
    by (simp add: abs_mult_self_eq)
  have low: "- (2 ^ 31) \<le> sint d * sint d"
    by (rule order_trans [of _ 0]) simp_all
  have "sint (dut_square d) = signed_take_bit 31 (sint d * sint d)"
    by (simp add: dut_square_def sint_word_mult ext)
  also have "\<dots> = sint d * sint d"
    by (rule signed_take_bit_int_eq_self [OF low up])
  finally show ?thesis .
qed

text \<open>
  Claim C10. In the squaring DUT \<open>in_ready\<close> equals \<open>rst_n\<close>. On a clock edge out of reset
  with \<open>in_valid\<close> high the next state is \<open>out_valid = 1\<close>, \<open>out_data = in_data\<^sup>2\<close>
  whatever the registers held before, so also when a result was pending (\<open>out_valid\<close>
  high, \<open>out_ready\<close> low): the pending result is not transferred at that edge and is gone
  after it.
\<close>

theorem dut_accept_overwrites_pending:
  "dut_in_ready rstn = rstn
   \<and> dut_posedge r (True, True, d, rdy) = \<lparr>dut.out_valid = True, out_data = dut_square d\<rparr>
   \<and> sint (dut_square d) = sint d * sint d
   \<and> dut_transfer (r\<lparr>dut.out_valid := True\<rparr>) False = None
   \<and> dut_posedge \<lparr>dut.out_valid = True, out_data = pending\<rparr> (True, True, d, False)
       = \<lparr>dut.out_valid = True, out_data = dut_square d\<rparr>"
  by (simp add: dut_in_ready_def dut_transfer_def dut_square_sint)

text \<open>
  A concrete lost result: 3 and then 4 are accepted while the consumer is not ready, then
  the consumer becomes ready; only \<open>16\<close> is ever transferred, \<open>9\<close> never is.
\<close>

lemma dut_lost_result_example:
  "dut_run \<lparr>dut.out_valid = False, out_data = 0\<rparr>
     [(True, True, 3, False), (True, True, 4, False), (True, False, 0, True),
      (True, False, 0, True)]
   = (\<lparr>dut.out_valid = False, out_data = 16\<rparr>, [16])"
  by (simp add: dut_in_ready_def dut_transfer_def dut_square_def)

section \<open>The reference models\<close>

lemma exp_sum_mod: "unat (exp_sum (a, b)) = (unat a + unat b) mod 2 ^ 32"
proof -
  have ua: "unat (ucast a :: u64) = unat a" and ub: "unat (ucast b :: u64) = unat b"
    by (simp_all add: unsigned_ucast_eq take_bit_nat_eq_self unsigned_less [THEN less_trans])
  have "unat a < 2 ^ 32" and "unat b < 2 ^ 32"
    using unsigned_less [of a] unsigned_less [of b] by simp_all
  then have small: "unat a + unat b < 2 ^ 64"
    by simp
  have sum: "unat ((ucast a :: u64) + ucast b) = unat a + unat b"
    using small by (simp add: unat_word_ariths ua ub)
  show ?thesis
    by (simp add: exp_sum_def unsigned_ucast_eq sum take_bit_eq_mod)
qed

lemma tb_mask_value: "tb_mask = 0xFFFFFFFF"
  by (simp add: tb_mask_def)

lemma tb_mask_is_mask: "tb_mask = mask 32"
  by (simp add: tb_mask_def mask_eq_exp_minus_1)

lemma tb_expected_mod: "unat (tb_expected x y) = (unat x + unat y) mod 2 ^ 32"
proof -
  have "unat (tb_expected x y) = take_bit 32 (unat (x + y))"
    by (simp only: tb_expected_def tb_mask_is_mask flip: take_bit_eq_mask)
       (simp add: unsigned_take_bit_eq)
  also have "\<dots> = ((unat x + unat y) mod 2 ^ 64) mod 2 ^ 32"
    by (simp add: take_bit_eq_mod unat_word_ariths)
  also have "\<dots> = (unat x + unat y) mod 2 ^ 32"
    by (rule mod_mod_cancel) simp
  finally show ?thesis .
qed

text \<open>
  Claim C4. Both reference models compute \<open>(a + b) mod 2\<^sup>3\<^sup>2\<close>: the golden value of the
  file-based host for 32-bit operands, and the value the Verilator testbench pushes for
  its 64-bit operand variables. For the directed inputs
  \<open>(0,0), (1,0), (0,1), (1,1), (0xFFFFFFFF,1)\<close>, the first five entries of \<open>dirv\<close>, the
  expected values are \<open>0, 1, 1, 2, 0\<close>.
\<close>

theorem reference_model_wraps_mod_2_32:
  "unat (exp_sum (a, b)) = (unat a + unat b) mod 2 ^ 32
   \<and> unat (tb_expected x y) = (unat x + unat y) mod 2 ^ 32
   \<and> map exp_sum [(0, 0), (1, 0), (0, 1), (1, 1), (0xFFFFFFFF, 1)] = [0, 1, 1, 2, 0]
   \<and> take 5 dirv = [(0, 0), (1, 0), (0, 1), (1, 1), (0xFFFFFFFF, 1)]
   \<and> map (\<lambda>v. tb_expected (fst v) (snd v)) (take 5 dirv) = [0, 1, 1, 2, 0]"
  by (simp add: exp_sum_mod tb_expected_mod)
     (simp add: exp_sum_def dirv_def tb_expected_def tb_mask_value)

section \<open>The comparison loop and the exit status of the file-based hosts\<close>

lemma mismatch_loop_closed:
  "mismatch_loop P i n (m, ls) =
     (m + length (filter P [i..<n]), ls @ take (10 - m) (filter P [i..<n]))"
proof (induction P i n "(m, ls)" arbitrary: m ls rule: mismatch_loop.induct)
  case (1 P i n m ls)
  show ?case
  proof (cases "i < n")
    case False
    then show ?thesis
      by (simp add: mismatch_loop.simps)
  next
    case True
    then have up: "[i..<n] = i # [Suc i..<n]"
      by (simp add: upt_conv_Cons)
    show ?thesis
    proof (cases "P i")
      case d: True
      have "mismatch_loop P i n (m, ls) =
              mismatch_loop P (i + 1) n (m + 1, if m < 10 then ls @ [i] else ls)"
        using True d by (subst mismatch_loop.simps) simp
      also have "\<dots> = (m + 1 + length (filter P [i + 1..<n]),
           (if m < 10 then ls @ [i] else ls) @ take (10 - (m + 1)) (filter P [i + 1..<n]))"
        using "1" [OF True, of "m + 1" "if m < 10 then ls @ [i] else ls"] d by simp
      also have "\<dots> = (m + length (filter P [i..<n]), ls @ take (10 - m) (filter P [i..<n]))"
        using d up by (cases "m < 10") (simp_all add: Suc_diff_Suc take_Cons')
      finally show ?thesis .
    next
      case d: False
      have "mismatch_loop P i n (m, ls) = mismatch_loop P (i + 1) n (m, ls)"
        using True d by (subst mismatch_loop.simps) simp
      also have "\<dots> =
          (m + length (filter P [i + 1..<n]), ls @ take (10 - m) (filter P [i + 1..<n]))"
        using "1" [OF True, of m ls] d by simp
      also have "\<dots> = (m + length (filter P [i..<n]), ls @ take (10 - m) (filter P [i..<n]))"
        using d up by simp
      finally show ?thesis .
    qed
  qed
qed

text \<open>
  Claim C7. In both file-based hosts the comparison visits every position; the counter
  \<open>mism\<close>, which is the count the FAIL line reports, ends as the total number of
  mismatching positions, and diagnostic lines are printed for the first mismatching
  positions only, at most 10 of them. The status is \<open>5\<close> exactly when the count is not
  zero.
\<close>

theorem mismatch_count_is_total_lines_capped:
  "fst (c_tb_compare out) = length (filter (\<lambda>i. out ! i \<noteq> c_gld i) [0..<N_samples])
   \<and> snd (c_tb_compare out) = take 10 (filter (\<lambda>i. out ! i \<noteq> c_gld i) [0..<N_samples])
   \<and> fst (cosim_compare inp got n) = length (filter (\<lambda>i. got ! i \<noteq> exp_sum (inp ! i)) [0..<n])
   \<and> snd (cosim_compare inp got n) = take 10 (filter (\<lambda>i. got ! i \<noteq> exp_sum (inp ! i)) [0..<n])
   \<and> length (snd (c_tb_compare out)) = min 10 (fst (c_tb_compare out))
   \<and> length (snd (cosim_compare inp got n)) = min 10 (fst (cosim_compare inp got n))"
  by (simp add: c_tb_compare_def cosim_compare_def mismatch_loop_closed min.commute)

lemma read_loop_closed:
  "read_loop toks k vec =
     (if length toks < k then (- 2, vec @ toks) else (0, vec @ take k toks))"
  by (induction toks k vec rule: read_loop.induct) auto

lemma read_outputs_closed:
  "read_outputs file n =
     (if n = 0 then (- 1, [])
      else case file of None \<Rightarrow> (- 1, [])
           | Some toks \<Rightarrow> if length toks < n then (- 2, toks) else (0, take n toks))"
  by (simp add: read_outputs_def read_loop_closed split: option.splits)

text \<open>The statuses of sw/main.c, one per way the run can end.\<close>

lemma c_tb_main_statuses:
  "c_tb_main False can_write sim_rc out_file = Exit 1"
  "c_tb_main True False sim_rc out_file = Exit 2"
  "sim_rc \<noteq> 0 \<Longrightarrow> c_tb_main True True sim_rc out_file = Aborted"
  "c_tb_main True True 0 None = Exit 4"
  "length toks < N_samples \<Longrightarrow> c_tb_main True True 0 (Some toks) = Exit 4"
  "N_samples \<le> length toks \<Longrightarrow>
     c_tb_main True True 0 (Some toks) =
       Exit (if fst (c_tb_compare (take N_samples toks)) = 0 then 0 else 5)"
  by (simp_all add: c_tb_main_def write_inputs_def launch_sim_def read_outputs_closed
                    N_samples_def)

text \<open>The statuses of cosim\_tb.cpp. A tool that exits with a non-zero code gives \<open>3\<close>.\<close>

lemma cosim_main_statuses:
  "cosim_main parse n seed False vlib vlog vsim out_file = Exit 2"
  "c \<noteq> 0 \<Longrightarrow> cosim_main parse n seed True (Exited c) vlog vsim out_file = Exit 3"
  "c \<noteq> 0 \<Longrightarrow> cosim_main parse n seed True (Exited 0) (Exited c) vsim out_file = Exit 3"
  "c \<noteq> 0 \<Longrightarrow> cosim_main parse n seed True (Exited 0) (Exited 0) (Exited c) out_file = Exit 3"
  "cosim_main parse n seed True (Exited 0) (Exited 0) (Exited 0) None = Exit 4"
  "length (List.map_filter parse toks) \<noteq> n \<Longrightarrow>
     cosim_main parse n seed True (Exited 0) (Exited 0) (Exited 0) (Some toks) = Exit 4"
  "length (List.map_filter parse toks) = n \<Longrightarrow>
     cosim_main parse n seed True (Exited 0) (Exited 0) (Exited 0) (Some toks) =
       Exit (if fst (cosim_compare (gen_stimulus n seed) (List.map_filter parse toks) n) = 0
             then 0 else 5)"
  by (simp_all add: cosim_main_def read_outputs_txt_def Let_def)

text \<open>
  Claim C6, at the input where sw/main.c departs from it. The output file holds the 1024
  golden values followed by at least one more value, so its length differs from the
  number of inputs; \<open>read_outputs\<close> stops after the 1024th value, and \<open>main\<close> returns \<open>0\<close>
  (the PASS status), not the status \<open>4\<close> that its header comment gives for a length
  mismatch.
\<close>

theorem c_tb_main_ignores_extra_outputs:
  "length (map c_gld [0..<N_samples] @ x # extra) \<noteq> N_samples
   \<and> read_outputs (Some (map c_gld [0..<N_samples] @ x # extra)) N_samples
       = (0, map c_gld [0..<N_samples])
   \<and> c_tb_main True True 0 (Some (map c_gld [0..<N_samples] @ x # extra)) = Exit 0"
proof -
  let ?gld = "map c_gld [0..<N_samples]"
  have pos: "N_samples \<noteq> 0"
    by (simp add: N_samples_def)
  have rd: "read_outputs (Some (?gld @ x # extra)) N_samples = (0, ?gld)"
    using pos by (simp add: read_outputs_closed)
  have "filter (\<lambda>i. ?gld ! i \<noteq> c_gld i) [0..<N_samples] = []"
    by (simp add: filter_empty_conv)
  then have cmp: "fst (c_tb_compare ?gld) = 0"
    by (simp add: c_tb_compare_def mismatch_loop_closed)
  show ?thesis
    using pos by (simp add: c_tb_main_def write_inputs_def launch_sim_def rd cmp)
qed

section \<open>The stimulus generators\<close>

lemma gen_stimulus_length: "length (gen_stimulus n s) = n"
  by (induction n arbitrary: s) (simp_all add: Let_def)

lemma gen_stimulus_nth:
  "i < n \<Longrightarrow> gen_stimulus n s ! i = ((lcg ^^ (2 * i + 1)) s, (lcg ^^ (2 * i + 2)) s)"
proof (induction n arbitrary: s i)
  case 0
  then show ?case by simp
next
  case (Suc n)
  show ?case
  proof (cases i)
    case 0
    then show ?thesis by (simp add: Let_def)
  next
    case (Suc j)
    then have "j < n"
      using Suc.prems by simp
    from Suc.IH [OF this, of "lcg (lcg s)"] show ?thesis
      using Suc by (simp add: Let_def funpow_swap1)
  qed
qed

lemma gen_stimulus_closed:
  "gen_stimulus n s = map (\<lambda>i. ((lcg ^^ (2 * i + 1)) s, (lcg ^^ (2 * i + 2)) s)) [0..<n]"
  by (rule nth_equalityI) (simp_all add: gen_stimulus_length gen_stimulus_nth)

lemma rnd_edge_rng: "rng (rnd_edge ev d st) = rng st"
  by (simp add: rnd_edge_def Let_def)

lemma rnd_cycle_rng: "rng (rnd_cycle ev gen st) = snd (rnd_drive gen (rng st))"
  by (simp add: rnd_cycle_def rnd_edge_rng split: prod.splits)

lemma rnd_cycles_rng:
  "rng ((rnd_cycle ev gen ^^ k) st) = ((\<lambda>g. snd (rnd_drive gen g)) ^^ k) (rng st)"
  by (induction k) (simp_all add: rnd_cycle_rng)

lemma rnd_stimulus_length: "length (rnd_stimulus gen k g) = k"
  by (induction k arbitrary: g) simp_all

lemma rnd_stimulus_nth:
  "j < k \<Longrightarrow>
     rnd_stimulus gen k g ! j = fst (rnd_drive gen (((\<lambda>g. snd (rnd_drive gen g)) ^^ j) g))"
proof (induction k arbitrary: g j)
  case 0
  then show ?case by simp
next
  case (Suc k)
  show ?case
  proof (cases j)
    case 0
    then show ?thesis by simp
  next
    case (Suc i)
    then have "i < k"
      using Suc.prems by simp
    from Suc.IH [OF this] show ?thesis
      using Suc funpow_swap1 [of "\<lambda>g. snd (rnd_drive gen g)" i g] by simp
  qed
qed

lemma rnd_cycles_stimulus:
  "map (\<lambda>j. fst (rnd_drive gen (rng ((rnd_cycle ev gen ^^ j) st)))) [0..<k]
     = rnd_stimulus gen k (rng st)"
  by (rule nth_equalityI) (simp_all add: rnd_stimulus_length rnd_stimulus_nth rnd_cycles_rng)

lemma rnd_loop_is_iteration:
  "\<exists>k. k \<le> cycles - t \<and> rnd_loop ev fin gen t st = (rnd_cycle ev gen ^^ k) st"
proof (induction ev fin gen t st rule: rnd_loop.induct)
  case (1 ev fin gen t st)
  show ?case
  proof (cases "t < cycles")
    case False
    then have "rnd_loop ev fin gen t st = (rnd_cycle ev gen ^^ 0) st"
      by (simp add: rnd_loop.simps)
    then show ?thesis by blast
  next
    case True
    show ?thesis
    proof (cases "fin (top_dut (rnd_cycle ev gen st))")
      case stop: True
      have "rnd_loop ev fin gen t st = (rnd_cycle ev gen ^^ 1) st"
        using True stop by (subst rnd_loop.simps) simp
      moreover have "1 \<le> cycles - t"
        using True by simp
      ultimately show ?thesis by blast
    next
      case go: False
      from "1" [OF True go] obtain k where k: "k \<le> cycles - (t + 1)"
        "rnd_loop ev fin gen (t + 1) (rnd_cycle ev gen st)
           = (rnd_cycle ev gen ^^ k) (rnd_cycle ev gen st)"
        by blast
      have "rnd_loop ev fin gen t st = (rnd_cycle ev gen ^^ Suc k) st"
        using True go k(2) by (subst rnd_loop.simps) (simp add: funpow_swap1)
      moreover have "Suc k \<le> cycles - t"
        using k(1) True by simp
      ultimately show ?thesis by blast
    qed
  qed
qed

lemma dir_cycle_rng: "rng (dir_cycle ev st v) = rng st"
  by (simp add: dir_cycle_def Let_def)

lemma dir_loop_rng: "rng (foldl (dir_cycle ev) st vs) = rng st"
  by (induction vs arbitrary: st) (simp_all add: dir_cycle_rng)

lemma drain_cycle_rng: "rng (drain_cycle ev st) = rng st"
  by (simp add: drain_cycle_def Let_def)

lemma drain_loop_stop:
  "\<not> (i < 64 \<and> (expq st \<noteq> [] \<or> out_valid (top_dut st))) \<Longrightarrow> drain_loop ev i st = (i, st)"
  by (subst drain_loop.simps) auto

lemma drain_loop_step:
  "i < 64 \<and> (expq st \<noteq> [] \<or> out_valid (top_dut st)) \<Longrightarrow>
     drain_loop ev i st = drain_loop ev (i + 1) (drain_cycle ev st)"
  by (subst drain_loop.simps) simp

lemma drain_loop_rng: "rng (snd (drain_loop ev i st)) = rng st"
proof (induction ev i st rule: drain_loop.induct)
  case (1 ev i st)
  show ?case
  proof (cases "i < 64 \<and> (expq st \<noteq> [] \<or> out_valid (top_dut st))")
    case False
    then show ?thesis
      by (simp add: drain_loop_stop)
  next
    case True
    then have unfold: "drain_loop ev i st = drain_loop ev (i + 1) (drain_cycle ev st)"
      by (rule drain_loop_step)
    have "rng (snd (drain_loop ev (i + 1) (drain_cycle ev st))) = rng (drain_cycle ev st)"
      by (rule "1" [OF True])
    then show ?thesis
      by (simp only: unfold drain_cycle_rng)
  qed
qed

lemma tb_directed_rng: "rng (tb_directed ev g0 top0) = g0"
  by (simp add: tb_directed_def Let_def drain_loop_rng dir_loop_rng)

text \<open>
  Claim C8. The stimulus is a function of the seed alone. In the file-based host the
  \<open>i\<close>-th pair is \<open>(lcg\<^bsup>2i+1\<^esup> seed, lcg\<^bsup>2i+2\<^esup> seed)\<close>. In the Verilator testbench the
  generator reaches the randomized loop in its seeded state \<open>g0\<close> whatever the DUT did
  before, the loop is an iteration of \<open>rnd_cycle\<close>, and the offer, readiness and payload
  decisions of its cycles are \<open>rnd_stimulus gen k g0\<close>, in which neither the DUT, nor the
  scoreboard, nor anything but the generator occurs; so two runs from the same seed,
  even against different designs, drive identical sequences.
\<close>

theorem stimulus_is_function_of_seed:
  "gen_stimulus n s = map (\<lambda>i. ((lcg ^^ (2 * i + 1)) s, (lcg ^^ (2 * i + 2)) s)) [0..<n]
   \<and> rng (tb_directed ev g0 top0) = g0
   \<and> (\<exists>k. k \<le> cycles \<and> rnd_loop ev fin gen 0 st = (rnd_cycle ev gen ^^ k) st)
   \<and> map (\<lambda>j. fst (rnd_drive gen (rng ((rnd_cycle ev gen ^^ j) (tb_directed ev g0 top0))))) [0..<k]
       = rnd_stimulus gen k g0
   \<and> map (\<lambda>j. fst (rnd_drive gen (rng ((rnd_cycle ev gen ^^ j) (tb_directed ev g0 top0))))) [0..<k]
       = map (\<lambda>j. fst (rnd_drive gen (rng ((rnd_cycle ev' gen ^^ j) (tb_directed ev' g0 top0'))))) [0..<k]"
  using rnd_loop_is_iteration [of 0 ev fin gen st]
  by (simp add: gen_stimulus_closed tb_directed_rng rnd_cycles_stimulus)

section \<open>The scoreboard of the Verilator testbench\<close>

lemma rnd_edge_expq:
  "expq (rnd_edge ev d st) =
     fst (if out_valid (rnd_low ev d (top_dut st)) \<and> out_ready (rnd_low ev d (top_dut st))
          then pop_compare (ucast (out_sum (rnd_low ev d (top_dut st)))) (rnd_push ev d st, errors st)
          else (rnd_push ev d st, errors st))"
  by (simp add: rnd_edge_def Let_def)

lemma rnd_edge_errors:
  "errors (rnd_edge ev d st) =
     snd (if out_valid (rnd_low ev d (top_dut st)) \<and> out_ready (rnd_low ev d (top_dut st))
          then pop_compare (ucast (out_sum (rnd_low ev d (top_dut st)))) (rnd_push ev d st, errors st)
          else (rnd_push ev d st, errors st))"
  by (simp add: rnd_edge_def Let_def)

text \<open>
  The randomized loop pushes before the edge and pops after it. That agrees with the
  specification's pop-then-push step on every edge, except an edge with both events on
  an empty queue.
\<close>

lemma rnd_edge_refines_spec:
  assumes "d = (present, ready, a, b)" and "t1 = rnd_low ev d (top_dut st)"
    and "expq st \<noteq> [] \<or> \<not> (in_valid t1 \<and> in_ready t1 \<and> out_valid t1 \<and> out_ready t1)"
  shows "(expq (rnd_edge ev d st), errors (rnd_edge ev d st)) =
           spec_on_edge (in_valid t1 \<and> in_ready t1) (tb_expected a b)
             (out_valid t1 \<and> out_ready t1) (ucast (out_sum t1)) (expq st, errors st)"
  using assms
  by (cases "expq st")
     (auto simp: rnd_edge_expq rnd_edge_errors rnd_push_def spec_on_edge_def Let_def)

text \<open>
  Claim C1, as amended. On an edge of the randomized loop with both an acceptance and a
  completion, when the queue is not empty before the edge, the observed result is
  compared with the value that was at the head of the queue before the edge, the head is
  removed and the value of the accepted transaction is appended; this is the result of
  the specification's step that pops first and pushes second.
\<close>

theorem rnd_edge_same_edge_compares_old_head:
  assumes "d = (present, ready, a, b)" and "t1 = rnd_low ev d (top_dut st)"
    and "in_valid t1" and "in_ready t1" and "out_valid t1" and "out_ready t1"
    and "expq st = h # rest"
  shows "expq (rnd_edge ev d st) = rest @ [tb_expected a b]
       \<and> errors (rnd_edge ev d st) = (if ucast (out_sum t1) \<noteq> h then errors st + 1 else errors st)
       \<and> (expq (rnd_edge ev d st), errors (rnd_edge ev d st)) =
           spec_on_edge True (tb_expected a b) True (ucast (out_sum t1)) (expq st, errors st)"
proof -
  have push: "rnd_push ev d st = (h # rest) @ [tb_expected a b]"
    using assms by (simp add: rnd_push_def)
  have "expq (rnd_edge ev d st) = rest @ [tb_expected a b]"
    and "errors (rnd_edge ev d st) = (if ucast (out_sum t1) \<noteq> h then errors st + 1 else errors st)"
    using assms(2,5,6) by (simp_all add: rnd_edge_expq rnd_edge_errors push)
  then show ?thesis
    using assms(7) by (simp add: spec_on_edge_def)
qed

lemma tb_expected_1_2: "tb_expected 1 2 = 3"
  by (simp add: tb_expected_def tb_mask_value)

lemmas adder_eval_simps =
  adder_eval_def adder_in_ready_def adder_out_valid_def adder_out_sum_def adder_reset_def
  out_buf_ready_def

text \<open>
  The adder holds the result 5 in its output slot, the queue holds the expected value 5,
  the consumer is ready and \<open>(1, 2)\<close> is offered: both events happen on this edge, the
  result is compared with 5 and the queue becomes \<open>[3]\<close>.
\<close>

theorem rnd_edge_same_edge_compares_old_head_witness:
  "expq (rnd_edge adder_eval (True, True, 1, 2)
      \<lparr>top_dut = adder_top0\<lparr>rst_n := True,
          model := \<lparr>regs = \<lparr>out_buf_valid = True, out_buf_data = 5, spill_buf_valid = False,
                            spill_buf_data = 0\<rparr>, clk_seen = True, rst_n_seen = True\<rparr>\<rparr>,
       expq = [5], errors = 0, rng = ()\<rparr>) = [] @ [3]
   \<and> errors (rnd_edge adder_eval (True, True, 1, 2)
      \<lparr>top_dut = adder_top0\<lparr>rst_n := True,
          model := \<lparr>regs = \<lparr>out_buf_valid = True, out_buf_data = 5, spill_buf_valid = False,
                            spill_buf_data = 0\<rparr>, clk_seen = True, rst_n_seen = True\<rparr>\<rparr>,
       expq = [5], errors = 0, rng = ()\<rparr>) = 0"
proof -
  let ?top = "adder_top0\<lparr>rst_n := True,
          model := \<lparr>regs = \<lparr>out_buf_valid = True, out_buf_data = 5, spill_buf_valid = False,
                            spill_buf_data = 0\<rparr>, clk_seen = True, rst_n_seen = True\<rparr>\<rparr>"
  let ?st = "\<lparr>top_dut = ?top, expq = [5 :: u64], errors = 0, rng = ()\<rparr>"
  let ?t1 = "rnd_low adder_eval (True, True, 1, 2) (top_dut ?st)"
  have pins: "in_valid ?t1" "in_ready ?t1" "out_valid ?t1" "out_ready ?t1"
    and sum: "out_sum ?t1 = 5"
    by (simp_all add: rnd_low_def adder_top0_def adder_eval_simps)
  have q: "expq ?st = 5 # []"
    by simp
  have "expq (rnd_edge adder_eval (True, True, 1, 2) ?st) = [] @ [tb_expected 1 2]
      \<and> errors (rnd_edge adder_eval (True, True, 1, 2) ?st)
          = (if ucast (out_sum ?t1) \<noteq> (5 :: u64) then errors ?st + 1 else errors ?st)
      \<and> (expq (rnd_edge adder_eval (True, True, 1, 2) ?st),
          errors (rnd_edge adder_eval (True, True, 1, 2) ?st))
          = spec_on_edge True (tb_expected 1 2) True (ucast (out_sum ?t1)) (expq ?st, errors ?st)"
    by (rule rnd_edge_same_edge_compares_old_head [OF refl refl pins q])
  then show ?thesis
    by (simp only: sum tb_expected_1_2) simp
qed

text \<open>
  Where the claim as stated fails: the combinational adder presents the sum of the offer
  in the cycle of the offer. With an empty queue, the offer \<open>(1, 2)\<close> and a ready consumer,
  acceptance and completion fall on the same edge; the testbench pushes 3, then pops that
  3 and compares the observed 3 with it: no error, empty queue. Popping first would have
  found the queue empty (an error) and left \<open>[3]\<close> in it.
\<close>

theorem rnd_edge_empty_queue_compares_new_entry:
  "in_valid (rnd_low comb_eval (True, True, 1, 2) (unit_top0\<lparr>rst_n := True\<rparr>))
   \<and> in_ready (rnd_low comb_eval (True, True, 1, 2) (unit_top0\<lparr>rst_n := True\<rparr>))
   \<and> out_valid (rnd_low comb_eval (True, True, 1, 2) (unit_top0\<lparr>rst_n := True\<rparr>))
   \<and> out_ready (rnd_low comb_eval (True, True, 1, 2) (unit_top0\<lparr>rst_n := True\<rparr>))
   \<and> out_sum (rnd_low comb_eval (True, True, 1, 2) (unit_top0\<lparr>rst_n := True\<rparr>)) = 3
   \<and> expq (rnd_edge comb_eval (True, True, 1, 2)
        \<lparr>top_dut = unit_top0\<lparr>rst_n := True\<rparr>, expq = [], errors = 0, rng = ()\<rparr>) = []
   \<and> errors (rnd_edge comb_eval (True, True, 1, 2)
        \<lparr>top_dut = unit_top0\<lparr>rst_n := True\<rparr>, expq = [], errors = 0, rng = ()\<rparr>) = 0
   \<and> spec_on_edge True (tb_expected 1 2) True 3 ([], 0) = ([3], 1)"
  by (simp add: rnd_edge_expq rnd_edge_errors rnd_push_def rnd_low_def comb_eval_def
                unit_top0_def spec_on_edge_def tb_expected_1_2)

lemma drive_script:
  "rnd_drive scripted_rng (x0 # x1 # x2 # x3 # script) =
     ((uint (x0 mod 100) < 70, uint (x1 mod 100) < 60, x2 AND tb_mask, x3 AND tb_mask), script)"
  by (simp add: rnd_drive_def rand_bit_def)

text \<open>
  Claim C5, as amended. In a cycle of the randomized loop in which a completion is
  observed (\<open>out_valid\<close> and \<open>out_ready\<close> high before the edge) while the queue is empty
  and no offer is accepted on the same edge, the error counter goes up by one, the queue
  stays empty, nothing else happens to the run, and the loop goes on to its next cycle
  (unless the cycle budget is used up or the model has called \<open>$finish\<close>).
\<close>

theorem rnd_cycle_counts_spurious_completion:
  assumes "t1 = rnd_low ev (fst (rnd_drive gen (rng st))) (top_dut st)"
    and "out_valid t1" and "out_ready t1"
    and "expq st = []" and "\<not> (in_valid t1 \<and> in_ready t1)"
  shows "errors (rnd_cycle ev gen st) = errors st + 1
       \<and> expq (rnd_cycle ev gen st) = []
       \<and> (t < cycles \<and> \<not> fin (top_dut (rnd_cycle ev gen st)) \<longrightarrow>
            rnd_loop ev fin gen t st = rnd_loop ev fin gen (t + 1) (rnd_cycle ev gen st))"
proof -
  obtain d g' where dg: "rnd_drive gen (rng st) = (d, g')"
    by (cases "rnd_drive gen (rng st)")
  have push: "rnd_push ev d (st\<lparr>rng := g'\<rparr>) = []"
    using assms(1,4,5) dg by (auto simp: rnd_push_def split: prod.splits)
  have "expq (rnd_cycle ev gen st) = []" and "errors (rnd_cycle ev gen st) = errors st + 1"
    using assms(1,2,3) dg by (simp_all add: rnd_cycle_def rnd_edge_expq rnd_edge_errors push)
  moreover have "t < cycles \<and> \<not> fin (top_dut (rnd_cycle ev gen st)) \<longrightarrow>
            rnd_loop ev fin gen t st = rnd_loop ev fin gen (t + 1) (rnd_cycle ev gen st)"
    by (subst rnd_loop.simps) simp
  ultimately show ?thesis by simp
qed

text \<open>
  The babbling design presents a result although nothing was ever accepted: the error
  is counted and the loop continues with cycle 1.
\<close>

theorem rnd_cycle_counts_spurious_completion_witness:
  "errors (rnd_cycle babble_eval scripted_rng
      \<lparr>top_dut = unit_top0\<lparr>rst_n := True\<rparr>, expq = [], errors = 0, rng = [0, 0, 1, 2]\<rparr>) = 0 + 1
   \<and> expq (rnd_cycle babble_eval scripted_rng
      \<lparr>top_dut = unit_top0\<lparr>rst_n := True\<rparr>, expq = [], errors = 0, rng = [0, 0, 1, 2]\<rparr>) = []
   \<and> rnd_loop babble_eval (\<lambda>t. False) scripted_rng 0
      \<lparr>top_dut = unit_top0\<lparr>rst_n := True\<rparr>, expq = [], errors = 0, rng = [0, 0, 1, 2]\<rparr>
     = rnd_loop babble_eval (\<lambda>t. False) scripted_rng (0 + 1)
        (rnd_cycle babble_eval scripted_rng
          \<lparr>top_dut = unit_top0\<lparr>rst_n := True\<rparr>, expq = [], errors = 0, rng = [0, 0, 1, 2]\<rparr>)"
proof -
  let ?st = "\<lparr>top_dut = unit_top0\<lparr>rst_n := True\<rparr>, expq = [], errors = (0 :: int),
               rng = [0, 0, 1, 2 :: u64]\<rparr>"
  let ?t1 = "rnd_low babble_eval (fst (rnd_drive scripted_rng (rng ?st))) (top_dut ?st)"
  have pins: "out_valid ?t1" "out_ready ?t1"
    by (simp_all add: drive_script rnd_low_def babble_eval_def)
  have empty: "expq ?st = []"
    by simp
  have refused: "\<not> (in_valid ?t1 \<and> in_ready ?t1)"
    by (simp add: drive_script rnd_low_def babble_eval_def)
  show ?thesis
    using rnd_cycle_counts_spurious_completion [OF refl pins empty refused, of 0 "\<lambda>t. False"]
    by (simp add: cycles_def)
qed

text \<open>
  Where the claim as stated fails: the queue is empty, the combinational adder presents
  the sum of the offer in the cycle of the offer and the consumer is ready, so a
  completion is observed on an empty queue. The offer is accepted on the same edge and
  pushed before the pop, which finds that entry: the error counter stays at 0.
\<close>

theorem rnd_cycle_same_edge_offer_masks_empty_queue:
  "expq \<lparr>top_dut = unit_top0\<lparr>rst_n := True\<rparr>, expq = [], errors = 0, rng = [0, 0, 1, 2 :: u64]\<rparr> = []
   \<and> out_valid (rnd_low comb_eval (fst (rnd_drive scripted_rng [0, 0, 1, 2]))
        (unit_top0\<lparr>rst_n := True\<rparr>))
   \<and> out_ready (rnd_low comb_eval (fst (rnd_drive scripted_rng [0, 0, 1, 2]))
        (unit_top0\<lparr>rst_n := True\<rparr>))
   \<and> errors (rnd_cycle comb_eval scripted_rng
        \<lparr>top_dut = unit_top0\<lparr>rst_n := True\<rparr>, expq = [], errors = 0, rng = [0, 0, 1, 2]\<rparr>) = 0
   \<and> expq (rnd_cycle comb_eval scripted_rng
        \<lparr>top_dut = unit_top0\<lparr>rst_n := True\<rparr>, expq = [], errors = 0, rng = [0, 0, 1, 2]\<rparr>) = []"
  by (simp add: rnd_cycle_def drive_script rnd_edge_expq rnd_edge_errors rnd_push_def
                rnd_low_def comb_eval_def unit_top0_def tb_expected_def tb_mask_value)

section \<open>The drain loops and the status of the Verilator testbench\<close>

lemma pop_compare_length: "length (fst (pop_compare got (q, e))) \<le> length q"
  by (cases q) simp_all

lemma drain_cycle_no_push: "length (expq (drain_cycle ev st)) \<le> length (expq st)"
  by (simp add: drain_cycle_def Let_def pop_compare_length)

lemma drain_loop_counter:
  assumes "i \<le> 64" and "drain_loop ev i st = (k, st')"
  shows "i \<le> k \<and> k \<le> 64 \<and> st' = (drain_cycle ev ^^ (k - i)) st
         \<and> (k < 64 \<longrightarrow> expq st' = [] \<and> \<not> out_valid (top_dut st'))"
  using assms
proof (induction ev i st rule: drain_loop.induct)
  case (1 ev i st)
  show ?case
  proof (cases "i < 64 \<and> (expq st \<noteq> [] \<or> out_valid (top_dut st))")
    case False
    then have "drain_loop ev i st = (i, st)"
      by (rule drain_loop_stop)
    then have "k = i" and "st' = st"
      using "1.prems"(2) by simp_all
    then show ?thesis
      using False "1.prems"(1) by auto
  next
    case True
    then have "drain_loop ev i st = drain_loop ev (i + 1) (drain_cycle ev st)"
      by (rule drain_loop_step)
    then have next_run: "drain_loop ev (i + 1) (drain_cycle ev st) = (k, st')"
      using "1.prems"(2) by simp
    have le: "i + 1 \<le> 64"
      using True by simp
    note ih = "1.IH" [OF True le next_run]
    then have "k - i = Suc (k - (i + 1))"
      by linarith
    then have "(drain_cycle ev ^^ (k - i)) st
                 = (drain_cycle ev ^^ (k - (i + 1))) (drain_cycle ev st)"
      by (simp add: funpow_swap1)
    then show ?thesis
      using ih by auto
  qed
qed

lemma drain_cycle_drive:
  "top_dut (drain_cycle ev st) =
     ev ((ev ((top_dut st)\<lparr>clk := False, in_valid := False, out_ready := True\<rparr>))\<lparr>clk := True\<rparr>)"
  by (simp add: drain_cycle_def Let_def)

lemma drain_cycle_errors: "errors st \<le> errors (drain_cycle ev st)"
  by (cases "expq st") (simp_all add: drain_cycle_def Let_def)

text \<open>
  Claim C2, as amended. After the stimulus the testbench runs at most 64 drain cycles.
  Each drain cycle clocks the design once with no offer and a ready consumer: the model
  is evaluated with \<open>clk = 0\<close>, \<open>in_valid = 0\<close>, \<open>out_ready = 1\<close> and then with \<open>clk = 1\<close>;
  the queue never grows in a drain cycle and the error counter never decreases. The
  loop ends before its budget is used up only with an empty queue and \<open>out_valid\<close> low.
  The status of the run is \<open>1\<close> exactly when the error counter is not zero and \<open>0\<close>
  otherwise: it is computed from the counter alone, and the queue left after the drain is
  not looked at.
\<close>

theorem final_drain_bounded_status_from_errors:
  "fst (drain_loop ev 0 st) \<le> 64
   \<and> snd (drain_loop ev 0 st) = (drain_cycle ev ^^ fst (drain_loop ev 0 st)) st
   \<and> (fst (drain_loop ev 0 st) < 64 \<longrightarrow>
        expq (snd (drain_loop ev 0 st)) = [] \<and> \<not> out_valid (top_dut (snd (drain_loop ev 0 st))))
   \<and> top_dut (drain_cycle ev st) =
        ev ((ev ((top_dut st)\<lparr>clk := False, in_valid := False, out_ready := True\<rparr>))\<lparr>clk := True\<rparr>)
   \<and> length (expq (drain_cycle ev st)) \<le> length (expq st)
   \<and> errors st \<le> errors (drain_cycle ev st)
   \<and> tb_main ev fin gen g0 top0 = (if errors (tb_run ev fin gen g0 top0) = 0 then 0 else 1)"
proof -
  obtain k st' where run: "drain_loop ev 0 st = (k, st')"
    by (cases "drain_loop ev 0 st")
  have "0 \<le> k \<and> k \<le> 64 \<and> st' = (drain_cycle ev ^^ (k - 0)) st
        \<and> (k < 64 \<longrightarrow> expq st' = [] \<and> \<not> out_valid (top_dut st'))"
    by (rule drain_loop_counter [OF _ run]) simp
  then show ?thesis
    using drain_cycle_no_push [of ev st] drain_cycle_errors [of st ev]
    by (auto simp: run tb_main_def tb_status_def drain_cycle_drive)
qed

lemma adder_after_reset:
  "tb_reset adder_eval (tb_init adder_top0) =
     \<lparr>clk = True, rst_n = True, in_valid = False, in_ready = True, in_a = 0, in_b = 0,
      out_valid = False, out_ready = False, out_sum = 0,
      model = \<lparr>regs = adder_reset, clk_seen = True, rst_n_seen = False\<rparr>\<rparr>"
  by (simp add: tb_reset_def tb_init_def adder_top0_def reset_cycle_def eval_nat_numeral
                adder_eval_simps)

text \<open>
  The directed loop against the adder: all six results match (no error), the queue is
  empty after it, and the last result is still presented by the output slot.
\<close>

lemma adder_dir_loop:
  "foldl (dir_cycle adder_eval)
     \<lparr>top_dut = tb_reset adder_eval (tb_init adder_top0), expq = [], errors = 0, rng = g\<rparr> dirv =
     \<lparr>top_dut = \<lparr>clk = True, rst_n = True, in_valid = True, in_ready = True,
                 in_a = 0xFFFFFFFF, in_b = 0xFFFFFFFF, out_valid = True, out_ready = True,
                 out_sum = 0xFFFFFFFE,
                 model = \<lparr>regs = \<lparr>out_buf_valid = True, out_buf_data = 0xFFFFFFFE,
                                  spill_buf_valid = False, spill_buf_data = 0\<rparr>,
                          clk_seen = True, rst_n_seen = True\<rparr>\<rparr>,
      expq = [], errors = 0, rng = g\<rparr>"
  by (simp add: adder_after_reset dirv_def dir_cycle_def tb_mask_value tb_expected_def
                adder_eval_simps Let_def)

lemma adder_dir_drain:
  "drain_loop adder_eval 0
     (foldl (dir_cycle adder_eval)
        \<lparr>top_dut = tb_reset adder_eval (tb_init adder_top0), expq = [], errors = 0, rng = g\<rparr> dirv) =
     (1, \<lparr>top_dut = \<lparr>clk = True, rst_n = True, in_valid = False, in_ready = True,
                 in_a = 0xFFFFFFFF, in_b = 0xFFFFFFFF, out_valid = False, out_ready = True,
                 out_sum = 0xFFFFFFFE,
                 model = \<lparr>regs = \<lparr>out_buf_valid = False, out_buf_data = 0xFFFFFFFE,
                                  spill_buf_valid = False, spill_buf_data = 0\<rparr>,
                          clk_seen = True, rst_n_seen = True\<rparr>\<rparr>,
      expq = [], errors = 0, rng = g\<rparr>)"
  apply (simp only: adder_dir_loop)
  apply (subst drain_loop.simps)
  apply (simp add: drain_cycle_def adder_eval_simps Let_def)
  apply (subst drain_loop.simps)
  apply (simp add: drain_cycle_def adder_eval_simps Let_def)
  done


text \<open>
  The directed drain against the adder takes one cycle, fewer than 64, and the theorem
  gives the empty queue and the low \<open>out_valid\<close> after it.
\<close>

theorem final_drain_bounded_status_from_errors_witness:
  "fst (drain_loop adder_eval 0
          (foldl (dir_cycle adder_eval)
             \<lparr>top_dut = tb_reset adder_eval (tb_init adder_top0), expq = [], errors = 0,
              rng = ()\<rparr> dirv)) < 64
   \<and> expq (snd (drain_loop adder_eval 0
          (foldl (dir_cycle adder_eval)
             \<lparr>top_dut = tb_reset adder_eval (tb_init adder_top0), expq = [], errors = 0,
              rng = ()\<rparr> dirv))) = []
   \<and> \<not> out_valid (top_dut (snd (drain_loop adder_eval 0
          (foldl (dir_cycle adder_eval)
             \<lparr>top_dut = tb_reset adder_eval (tb_init adder_top0), expq = [], errors = 0,
              rng = ()\<rparr> dirv))))"
proof -
  let ?st = "foldl (dir_cycle adder_eval)
             \<lparr>top_dut = tb_reset adder_eval (tb_init adder_top0), expq = [], errors = 0,
              rng = ()\<rparr> dirv"
  have short: "fst (drain_loop adder_eval 0 ?st) < 64"
    by (simp only: adder_dir_drain) simp
  note bound =
    final_drain_bounded_status_from_errors
      [of adder_eval ?st "\<lambda>t. False" scripted_rng "[]" adder_top0]
  have drained: "expq (snd (drain_loop adder_eval 0 ?st)) = []
      \<and> \<not> out_valid (top_dut (snd (drain_loop adder_eval 0 ?st)))"
    by (rule mp [OF bound [THEN conjunct2, THEN conjunct2, THEN conjunct1] short])
  show ?thesis
    by (rule conjI [OF short drained])
qed

text \<open>The stuck design: no cycle of any loop counts an error or shortens the queue.\<close>

lemma stuck_dir_cycle:
  "errors (dir_cycle stuck_eval st v) = errors st
   \<and> expq (dir_cycle stuck_eval st v) = expq st @ [tb_expected (fst v) (snd v)]"
  by (simp add: dir_cycle_def stuck_eval_def Let_def)

lemma stuck_dir_loop:
  "errors (foldl (dir_cycle stuck_eval) st vs) = errors st
   \<and> length (expq (foldl (dir_cycle stuck_eval) st vs)) = length (expq st) + length vs"
  by (induction vs arbitrary: st) (simp_all add: stuck_dir_cycle)

lemma stuck_drain_cycle:
  "errors (drain_cycle stuck_eval st) = errors st \<and> expq (drain_cycle stuck_eval st) = expq st"
  by (simp add: drain_cycle_def stuck_eval_def Let_def)

lemma stuck_drain_loop:
  "i \<le> 64 \<Longrightarrow> expq st \<noteq> [] \<Longrightarrow>
     fst (drain_loop stuck_eval i st) = 64
     \<and> errors (snd (drain_loop stuck_eval i st)) = errors st
     \<and> expq (snd (drain_loop stuck_eval i st)) = expq st"
proof (induction "64 - i" arbitrary: i st)
  case 0
  then have "\<not> (i < 64 \<and> (expq st \<noteq> [] \<or> out_valid (top_dut st)))" and "i = 64"
    by simp_all
  then show ?case
    by (simp add: drain_loop_stop)
next
  case (Suc n)
  then have lt: "i < 64"
    by simp
  have unfold: "drain_loop stuck_eval i st = drain_loop stuck_eval (i + 1) (drain_cycle stuck_eval st)"
    using lt Suc.prems(2) by (simp add: drain_loop_step)
  have "n = 64 - (i + 1)"
    using Suc.hyps(2) by simp
  from Suc.hyps(1) [OF this] lt Suc.prems(2) show ?case
    by (simp only: unfold) (simp add: stuck_drain_cycle)
qed

lemma stuck_rnd_cycle:
  "errors (rnd_cycle stuck_eval gen st) = errors st
   \<and> (expq st \<noteq> [] \<longrightarrow> expq (rnd_cycle stuck_eval gen st) \<noteq> [])"
  by (simp add: rnd_cycle_def rnd_edge_def rnd_push_def rnd_low_def stuck_eval_def Let_def
           split: prod.splits)

lemma stuck_rnd_loop:
  "errors (rnd_loop stuck_eval fin gen t st) = errors st
   \<and> (expq st \<noteq> [] \<longrightarrow> expq (rnd_loop stuck_eval fin gen t st) \<noteq> [])"
proof -
  obtain k where "rnd_loop stuck_eval fin gen t st = (rnd_cycle stuck_eval gen ^^ k) st"
    using rnd_loop_is_iteration [of t stuck_eval fin gen st] by blast
  moreover have "errors ((rnd_cycle stuck_eval gen ^^ k) st) = errors st
   \<and> (expq st \<noteq> [] \<longrightarrow> expq ((rnd_cycle stuck_eval gen ^^ k) st) \<noteq> [])"
    by (induction k) (simp_all add: stuck_rnd_cycle)
  ultimately show ?thesis by simp
qed

lemma stuck_directed:
  "errors (tb_directed stuck_eval g0 top0) = 0 \<and> expq (tb_directed stuck_eval g0 top0) \<noteq> []"
proof -
  let ?st0 = "\<lparr>top_dut = tb_reset stuck_eval (tb_init top0), expq = [], errors = 0, rng = g0\<rparr>"
  let ?st1 = "foldl (dir_cycle stuck_eval) ?st0 dirv"
  have e: "errors ?st1 = 0" and l: "length (expq ?st1) = 6"
    using stuck_dir_loop [of ?st0 dirv] by (simp_all add: dirv_def)
  then have ne: "expq ?st1 \<noteq> []"
    by auto
  show ?thesis
    using stuck_drain_loop [of 0 ?st1, OF _ ne] e ne by (simp add: tb_directed_def Let_def)
qed

lemma stuck_run:
  "errors (tb_run stuck_eval fin gen g0 top0) = 0
   \<and> expq (tb_run stuck_eval fin gen g0 top0) \<noteq> []
   \<and> fst (drain_loop stuck_eval 0 (rnd_loop stuck_eval fin gen 0 (tb_directed stuck_eval g0 top0)))
       = 64"
proof -
  let ?st3 = "rnd_loop stuck_eval fin gen 0 (tb_directed stuck_eval g0 top0)"
  have e: "errors ?st3 = 0" and ne: "expq ?st3 \<noteq> []"
    using stuck_rnd_loop [of fin gen 0 "tb_directed stuck_eval g0 top0"]
      stuck_directed [of g0 top0]
    by simp_all
  show ?thesis
    using stuck_drain_loop [of 0 ?st3, OF _ ne] e ne by (simp add: tb_run_def)
qed

text \<open>
  Where the claim as stated fails: a whole run of \<open>main\<close> against the stuck design, with
  the generator replaying the outputs of the seeded \<open>std::mt19937_64\<close>. Nothing ever
  completes, the final drain uses all its 64 cycles, the queue is not empty at the end,
  and the status is \<open>0\<close>, the status of a passing run.
\<close>

theorem stuck_design_passes:
  "tb_main stuck_eval (\<lambda>t. False) scripted_rng mt19937_64_seed1 unit_top0 = 0
   \<and> expq (tb_run stuck_eval (\<lambda>t. False) scripted_rng mt19937_64_seed1 unit_top0) \<noteq> []
   \<and> fst (drain_loop stuck_eval 0 (rnd_loop stuck_eval (\<lambda>t. False) scripted_rng 0
             (tb_directed stuck_eval mt19937_64_seed1 unit_top0))) = 64"
  using stuck_run [of "\<lambda>t. False" scripted_rng mt19937_64_seed1 unit_top0]
  by (simp add: tb_main_def tb_status_def)

section \<open>The producers and the held-stimulus rule\<close>








end
